theory Spec2Isabelle
  imports Complex_Main
begin

section \<open>Weight history: the data model\<close>

text \<open>
  The weight-history screen (\<^verbatim>\<open>WeightHistoryScreen\<close>) loads the daily logs of a date
  range, builds one data point per day, fills the days without a logged weight from the
  nearest later logged weight, falls back to the profile weight and drops what is still
  empty; \<^verbatim>\<open>calculateStats\<close> summarises the series.

  JavaScript numbers are modelled as \<^typ>\<open>real\<close> (the weights come out of JSON, so
  they are never NaN or infinite); \<^verbatim>\<open>null\<close> and \<^verbatim>\<open>undefined\<close> are
  \<^const>\<open>None\<close>. A \<^verbatim>\<open>Date\<close> object is modelled by its instant, the milliseconds
  since the epoch (an \<^typ>\<open>int\<close>), so \<^verbatim>\<open><=\<close> on dates is \<open>\<le>\<close> on instants. What
  the runtime does with an instant in its own time zone is a parameter of the functions
  below, and nothing is assumed about it: \<open>getDate\<close> (the local day of the month),
  \<open>setDate\<close> (the instant with the local day of the month set, the local time of day
  kept), \<open>isoDate\<close> (\<^verbatim>\<open>toISOString().split('T')[0]\<close>, the date in UTC) and
  \<open>dayMonth\<close> (the \<^verbatim>\<open>DD.MM.\<close> label from the local day and month).
\<close>

text \<open>A daily log as the storage service delivers it: the date may be missing or empty,
  the weight may be missing or null.\<close>

record daily_log =
  date :: "string option"
  weight :: "real option"

text \<open>The user profile; \<^verbatim>\<open>fetchUserProfile\<close> may deliver none.\<close>

record user_profile =
  weight :: "real option"

text \<open>
  \<^verbatim>\<open>WeightDataPoint\<close>. The TypeScript type says \<^verbatim>\<open>weight: number\<close>, but the cast
  \<^verbatim>\<open>defaultWeight as number\<close> is erased at run time, so a null can stand there until
  the filter of step 3 has run: the field is an option.
\<close>

record WeightDataPoint =
  date :: string
  formattedDate :: string
  weight :: "real option"

text \<open>The objects of \<^verbatim>\<open>initialPoints\<close> carry the flag \<^verbatim>\<open>hasActualWeight\<close> too.\<close>

record point = WeightDataPoint +
  hasActualWeight :: bool

text \<open>The result of \<^verbatim>\<open>calculateStats\<close>; its key \<^verbatim>\<open>end\<close> is written \<open>end'\<close>.\<close>

record stats =
  start :: real
  end' :: real
  change :: real
  trend :: string

text \<open>The component's state that the algorithm reads and writes.\<close>

record screen_state =
  weightData :: "WeightDataPoint list"
  defaultWeight :: "real option"
  timeRange :: int

section \<open>The functions of the screen\<close>

text \<open>\<^verbatim>\<open>userProfile?.weight || null\<close>: no profile, no weight and the weight 0 all give
  null.\<close>

definition profileWeightOrNull :: "user_profile option \<Rightarrow> real option" where
  "profileWeightOrNull userProfile =
     (case userProfile of
        None \<Rightarrow> None
      | Some u \<Rightarrow>
          (case user_profile.weight u of
             None \<Rightarrow> None
           | Some w \<Rightarrow> if w = 0 then None else Some w))"

text \<open>\<^verbatim>\<open>logs.filter(log => log.date)\<close>: a missing date and the empty string are falsy.\<close>

definition hasDate :: "daily_log \<Rightarrow> bool" where
  "hasDate lg = (case daily_log.date lg of None \<Rightarrow> False | Some d \<Rightarrow> d \<noteq> [])"

text \<open>\<^verbatim>\<open>logsByDate.set(log.date, log)\<close>, on a log that passed the filter.\<close>

definition setLog :: "daily_log \<Rightarrow> (string \<rightharpoonup> daily_log) \<Rightarrow> (string \<rightharpoonup> daily_log)" where
  "setLog lg m = (case daily_log.date lg of None \<Rightarrow> m | Some d \<Rightarrow> m(d \<mapsto> lg))"

text \<open>The map \<^verbatim>\<open>logsByDate\<close>: the logs with a date, set one after the other in the
  order of delivery.\<close>

definition logsByDate :: "daily_log list \<Rightarrow> (string \<rightharpoonup> daily_log)" where
  "logsByDate logs = fold setLog (filter hasDate logs) Map.empty"

text \<open>
  The loop \<^verbatim>\<open>while (currentDate <= now) { push; currentDate.setDate(currentDate.getDate() + 1) }\<close>
  on instants. Whether it ends depends on what the runtime's \<^verbatim>\<open>setDate\<close> does, so the
  result is an option: \<^const>\<open>None\<close> when the loop does not end.
\<close>

partial_function (option) allDaysInRange ::
  "(int \<Rightarrow> int) \<Rightarrow> (int \<Rightarrow> int \<Rightarrow> int) \<Rightarrow> int \<Rightarrow> int \<Rightarrow> int list option" where
  "allDaysInRange getDate setDate currentDate now =
     (if currentDate \<le> now
      then Option.bind
             (allDaysInRange getDate setDate (setDate currentDate (getDate currentDate + 1)) now)
             (\<lambda>rest. Some (currentDate # rest))
      else Some [])"

declare allDaysInRange.simps [code]

text \<open>\<^verbatim>\<open>log?.weight\<close> for the log found under a date string.\<close>

definition logWeight :: "daily_log option \<Rightarrow> real option" where
  "logWeight lg = (case lg of None \<Rightarrow> None | Some l \<Rightarrow> daily_log.weight l)"

text \<open>Step 1, the body of the \<^verbatim>\<open>map\<close> over the days: one point per day, with the
  weight of the day's log when it has one.\<close>

definition initialPoint ::
  "(int \<Rightarrow> string) \<Rightarrow> (int \<Rightarrow> string) \<Rightarrow> (string \<rightharpoonup> daily_log) \<Rightarrow> int \<Rightarrow> point" where
  "initialPoint isoDate dayMonth byDate dateObj =
     (let dateStr = isoDate dateObj;
          lg = byDate dateStr
      in \<lparr> date = dateStr,
           formattedDate = dayMonth dateObj,
           weight = (if logWeight lg \<noteq> None then logWeight lg else None),
           hasActualWeight = (logWeight lg \<noteq> None) \<rparr>)"

text \<open>\<^verbatim>\<open>initialPoints\<close>, from the array \<^verbatim>\<open>allDaysInRange\<close> that the loop has built.\<close>

definition initialPoints ::
  "(int \<Rightarrow> string) \<Rightarrow> (int \<Rightarrow> string) \<Rightarrow> int list \<Rightarrow> daily_log list \<Rightarrow> point list" where
  "initialPoints isoDate dayMonth allDays logs =
     map (initialPoint isoDate dayMonth (logsByDate logs)) allDays"

text \<open>Step 2, the \<^verbatim>\<open>forEach\<close> over the reversed points with the variable
  \<^verbatim>\<open>lastKnownWeight\<close>: the first argument is the variable, the result the points as
  the loop leaves them.\<close>

fun carry :: "real option \<Rightarrow> point list \<Rightarrow> point list" where
  "carry lastKnownWeight [] = []"
| "carry lastKnownWeight (p # ps) =
     (if hasActualWeight p then p # carry (weight p) ps
      else if lastKnownWeight \<noteq> None then p\<lparr>weight := lastKnownWeight\<rparr> # carry lastKnownWeight ps
      else p # carry lastKnownWeight ps)"

definition reversedPoints ::
  "(int \<Rightarrow> string) \<Rightarrow> (int \<Rightarrow> string) \<Rightarrow> int list \<Rightarrow> daily_log list \<Rightarrow> point list" where
  "reversedPoints isoDate dayMonth allDays logs =
     carry None (rev (initialPoints isoDate dayMonth allDays logs))"

text \<open>Step 3: back to ascending order, the profile weight where the weight is still
  null, and the filter that drops what is null even then.\<close>

definition withDefault :: "real option \<Rightarrow> point \<Rightarrow> WeightDataPoint" where
  "withDefault dflt p =
     \<lparr> date = date p,
       formattedDate = formattedDate p,
       weight = (if weight p \<noteq> None then weight p else dflt) \<rparr>"

definition weightPoints ::
  "(int \<Rightarrow> string) \<Rightarrow> (int \<Rightarrow> string) \<Rightarrow> real option \<Rightarrow> int list \<Rightarrow> daily_log list
     \<Rightarrow> WeightDataPoint list" where
  "weightPoints isoDate dayMonth dflt allDays logs =
     filter (\<lambda>p. weight p \<noteq> None)
       (map (withDefault dflt) (rev (reversedPoints isoDate dayMonth allDays logs)))"

text \<open>The day loop and the three steps together: the series for a start date and
  \<^verbatim>\<open>now\<close>, the fetched logs and the default weight.\<close>

definition weightSeries ::
  "(int \<Rightarrow> int) \<Rightarrow> (int \<Rightarrow> int \<Rightarrow> int) \<Rightarrow> (int \<Rightarrow> string) \<Rightarrow> (int \<Rightarrow> string) \<Rightarrow> real option
     \<Rightarrow> int \<Rightarrow> int \<Rightarrow> daily_log list \<Rightarrow> WeightDataPoint list option" where
  "weightSeries getDate setDate isoDate dayMonth dflt startDate now logs =
     map_option (\<lambda>allDays. weightPoints isoDate dayMonth dflt allDays logs)
       (allDaysInRange getDate setDate startDate now)"

text \<open>
  \<^verbatim>\<open>loadWeightData\<close> with the profile and the logs that the two fetches delivered and
  the two clock reads: \<open>now\<close> is the first \<^verbatim>\<open>new Date()\<close> and \<open>clock2\<close> the second,
  from which \<^verbatim>\<open>startDate.setDate(now.getDate() - timeRange)\<close> makes the start date.
  \<^verbatim>\<open>setDefaultWeight\<close> only schedules the new state: the series is still built with
  the \<^verbatim>\<open>defaultWeight\<close> of the render that started the load.
\<close>

definition loadWeightData ::
  "(int \<Rightarrow> int) \<Rightarrow> (int \<Rightarrow> int \<Rightarrow> int) \<Rightarrow> (int \<Rightarrow> string) \<Rightarrow> (int \<Rightarrow> string)
     \<Rightarrow> user_profile option \<Rightarrow> int \<Rightarrow> int \<Rightarrow> daily_log list \<Rightarrow> screen_state \<Rightarrow> screen_state option" where
  "loadWeightData getDate setDate isoDate dayMonth userProfile now clock2 logs st =
     (let startDate = setDate clock2 (getDate now - timeRange st)
      in map_option
           (\<lambda>wp. st\<lparr> defaultWeight := profileWeightOrNull userProfile, weightData := wp \<rparr>)
           (weightSeries getDate setDate isoDate dayMonth (defaultWeight st) startDate now logs))"

text \<open>\<^verbatim>\<open>x?.weight || 0\<close>: null gives 0 (and 0 stays 0).\<close>

definition weightOrZero :: "real option \<Rightarrow> real" where
  "weightOrZero w = (case w of None \<Rightarrow> 0 | Some x \<Rightarrow> if x = 0 then 0 else x)"

definition calculateStats :: "WeightDataPoint list \<Rightarrow> stats" where
  "calculateStats wd =
     (if length wd = 0 then \<lparr> start = 0, end' = 0, change = 0, trend = ''neutral'' \<rparr>
      else
        let startWeight = weightOrZero (weight (wd ! 0));
            endWeight = weightOrZero (weight (wd ! (length wd - 1)));
            chg = endWeight - startWeight;
            trend = (if chg < 0 then ''down'' else if chg > 0 then ''up'' else ''neutral'')
        in \<lparr> start = startWeight, end' = endWeight, change = \<bar>chg\<bar>, trend = trend \<rparr>)"

section \<open>The carry pass, read in ascending order\<close>

text \<open>The value of \<^verbatim>\<open>lastKnownWeight\<close> once the loop has run over the given points.\<close>

fun lastKnown :: "real option \<Rightarrow> point list \<Rightarrow> real option" where
  "lastKnown a [] = a"
| "lastKnown a (p # ps) = lastKnown (if hasActualWeight p then weight p else a) ps"

text \<open>What the loop body does to one point when \<^verbatim>\<open>lastKnownWeight\<close> is \<open>a\<close>.\<close>

definition fill :: "real option \<Rightarrow> point \<Rightarrow> point" where
  "fill a p = (if hasActualWeight p then p else if a \<noteq> None then p\<lparr>weight := a\<rparr> else p)"

text \<open>The weight of the first of the given points that has a weight of its own (or
  nothing, when there is no such point).\<close>

definition firstWeight :: "point list \<Rightarrow> real option" where
  "firstWeight ps = (case find hasActualWeight ps of None \<Rightarrow> None | Some q \<Rightarrow> weight q)"

text \<open>The points in ascending order, each filled from the points after it.\<close>

fun carried :: "point list \<Rightarrow> point list" where
  "carried [] = []"
| "carried (p # ps) = fill (firstWeight ps) p # carried ps"

section \<open>Example data\<close>

text \<open>
  A runtime in the time zone UTC, for the instants of March 2024 (1 March 2024, 00:00 UTC,
  is the instant 1709251200000, and a day has 86400000 milliseconds): the day of the
  month, \<^verbatim>\<open>setDate\<close>, the ISO date and the label.
\<close>

definition utcGetDate :: "int \<Rightarrow> int" where
  "utcGetDate t = (t - 1709251200000) div 86400000 + 1"

definition utcSetDate :: "int \<Rightarrow> int \<Rightarrow> int" where
  "utcSetDate t n = t + (n - utcGetDate t) * 86400000"

definition twoDigits :: "int \<Rightarrow> string" where
  "twoDigits n = [''0123456789'' ! nat (n div 10), ''0123456789'' ! nat (n mod 10)]"

definition utcIsoDate :: "int \<Rightarrow> string" where
  "utcIsoDate t = ''2024-03-'' @ twoDigits (utcGetDate t)"

definition utcDayMonth :: "int \<Rightarrow> string" where
  "utcDayMonth t = twoDigits (utcGetDate t) @ ''.03.''"

text \<open>Noon of 1, 2 and 3 March 2024, and some logs.\<close>

definition threeDays :: "int list" where
  "threeDays = [1709294400000, 1709380800000, 1709467200000]"

definition logsDay2 :: "daily_log list" where
  "logsDay2 = [\<lparr> daily_log.date = Some ''2024-03-02'', weight = Some 80 \<rparr>]"

definition nullEntryDay2 :: daily_log where
  "nullEntryDay2 = \<lparr> daily_log.date = Some ''2024-03-02'', weight = None \<rparr>"

definition februaryEntry :: daily_log where
  "februaryEntry = \<lparr> daily_log.date = Some ''2024-02-20'', weight = Some 60 \<rparr>"

definition secondEntryDay2 :: daily_log where
  "secondEntryDay2 = \<lparr> daily_log.date = Some ''2024-03-02'', weight = Some 81 \<rparr>"


definition series72_70 :: "WeightDataPoint list" where
  "series72_70 =
     [\<lparr> date = ''2024-03-01'', formattedDate = ''01.03.'', weight = Some 72 \<rparr>,
      \<lparr> date = ''2024-03-02'', formattedDate = ''02.03.'', weight = Some 70 \<rparr>]"

text \<open>
  A load on 17 March 2024: the first clock read is 12:00:00.000 UTC, the second, one
  millisecond later, 12:00:00.001 UTC. The screen shows 14 days, the profile weight is 75
  and is already the default weight of the state.
\<close>

definition noon17 :: int where
  "noon17 = 1710676800000"

definition profile75 :: "user_profile option" where
  "profile75 = Some \<lparr> user_profile.weight = Some 75 \<rparr>"

definition state14 :: screen_state where
  "state14 = \<lparr> weightData = [], defaultWeight = Some 75, timeRange = 14 \<rparr>"

definition logToday80 :: "daily_log list" where
  "logToday80 = [\<lparr> daily_log.date = Some ''2024-03-17'', weight = Some 80 \<rparr>]"

text \<open>The days the loop builds in that load (3 to 16 March, 12:00:00.001 UTC).\<close>

definition skewDays :: "int list" where
  "skewDays = [1709467200001, 1709553600001, 1709640000001, 1709726400001,
               1709812800001, 1709899200001, 1709985600001, 1710072000001,
               1710158400001, 1710244800001, 1710331200001, 1710417600001,
               1710504000001, 1710590400001]"

section \<open>The day loop\<close>

lemma allDaysInRange_stop:
  "now < c \<Longrightarrow> allDaysInRange getDate setDate c now = Some []"
  by (subst allDaysInRange.simps) simp

lemma allDaysInRange_step:
  "c \<le> now \<Longrightarrow> allDaysInRange getDate setDate c now =
     Option.bind (allDaysInRange getDate setDate (setDate c (getDate c + 1)) now)
       (\<lambda>rest. Some (c # rest))"
  by (subst allDaysInRange.simps) simp

text \<open>
  When \<^verbatim>\<open>setDate(getDate() + 1)\<close> moves every instant forward, as a runtime's does, the
  loop ends; the days it builds begin with the start date when that is not after
  \<^verbatim>\<open>now\<close>, and all lie between the start date and \<^verbatim>\<open>now\<close>.
\<close>

lemma allDaysInRange_returns:
  assumes adv: "\<And>t. t < setDate t (getDate t + 1)"
  shows "\<exists>ds. allDaysInRange getDate setDate c now = Some ds
     \<and> (\<forall>d \<in> set ds. c \<le> d \<and> d \<le> now)
     \<and> (c \<le> now \<longrightarrow> ds \<noteq> [] \<and> hd ds = c)"
proof (induction "nat (now + 1 - c)" arbitrary: c rule: less_induct)
  case less
  show ?case
  proof (cases "c \<le> now")
    case False
    then show ?thesis by (simp add: allDaysInRange_stop)
  next
    case True
    let ?n = "setDate c (getDate c + 1)"
    have cn: "c < ?n" by (rule adv)
    with True have "nat (now + 1 - ?n) < nat (now + 1 - c)" by simp
    from less [OF this] obtain ds where ds:
      "allDaysInRange getDate setDate ?n now = Some ds" "\<forall>d \<in> set ds. ?n \<le> d \<and> d \<le> now"
      by blast
    from ds(1) True have "allDaysInRange getDate setDate c now = Some (c # ds)"
      by (simp add: allDaysInRange_step)
    moreover from ds(2) cn True have "\<forall>d \<in> set (c # ds). c \<le> d \<and> d \<le> now"
      by auto
    ultimately show ?thesis by simp
  qed
qed

lemma allDaysInRange_cases:
  assumes "allDaysInRange getDate setDate c now = Some ds"
  shows "(now < c \<and> ds = []) \<or>
    (c \<le> now \<and> (\<exists>rest. ds = c # rest \<and>
       allDaysInRange getDate setDate (setDate c (getDate c + 1)) now = Some rest))"
proof (cases "c \<le> now")
  case False
  with assms show ?thesis by (simp add: allDaysInRange_stop)
next
  case True
  with assms show ?thesis
    by (cases "allDaysInRange getDate setDate (setDate c (getDate c + 1)) now")
      (auto simp: allDaysInRange_step)
qed

text \<open>The days the loop has built: the first is the start date, each next one is
  \<^verbatim>\<open>setDate(getDate() + 1)\<close> of the one before, and none is after \<^verbatim>\<open>now\<close>.\<close>

lemma allDaysInRange_chain:
  "allDaysInRange getDate setDate c now = Some ds \<Longrightarrow>
     (ds \<noteq> [] \<longrightarrow> ds ! 0 = c)
   \<and> (\<forall>j. Suc j < length ds \<longrightarrow> ds ! Suc j = setDate (ds ! j) (getDate (ds ! j) + 1))
   \<and> (\<forall>d \<in> set ds. d \<le> now)"
proof (induction ds arbitrary: c)
  case Nil
  show ?case by simp
next
  case (Cons d ds)
  from allDaysInRange_cases [OF Cons.prems]
  have c: "d = c" "c \<le> now"
    and rest: "allDaysInRange getDate setDate (setDate c (getDate c + 1)) now = Some ds"
    by auto
  note ih = Cons.IH [OF rest]
  have "(d # ds) ! Suc j = setDate ((d # ds) ! j) (getDate ((d # ds) ! j) + 1)"
    if "Suc j < length (d # ds)" for j
  proof (cases j)
    case 0
    with that ih c show ?thesis by auto
  next
    case (Suc m)
    with that ih show ?thesis by auto
  qed
  with ih c show ?case by auto
qed

section \<open>The carry pass, point by point\<close>

lemma carry_append: "carry a (xs @ ys) = carry a xs @ carry (lastKnown a xs) ys"
  by (induction xs arbitrary: a) auto

lemma lastKnown_append: "lastKnown a (xs @ ys) = lastKnown (lastKnown a xs) ys"
  by (induction xs arbitrary: a) auto

lemma lastKnown_rev:
  "lastKnown a (rev ps) = (case find hasActualWeight ps of None \<Rightarrow> a | Some q \<Rightarrow> weight q)"
  by (induction ps) (auto simp: lastKnown_append)

lemma lastKnown_firstWeight: "lastKnown None (rev ps) = firstWeight ps"
  by (simp add: lastKnown_rev firstWeight_def)

lemma carry_single: "carry a [p] = [fill a p]"
  by (simp add: fill_def)

text \<open>The reversed loop over the reversed points is the ascending fill.\<close>

lemma rev_carry: "rev (carry None (rev ps)) = carried ps"
proof (induction ps)
  case Nil
  show ?case by simp
next
  case (Cons p ps)
  have "rev (carry None (rev (p # ps))) = fill (firstWeight ps) p # rev (carry None (rev ps))"
    by (simp add: carry_append carry_single lastKnown_firstWeight del: carry.simps)
  with Cons show ?case by simp
qed

lemma length_carried: "length (carried ps) = length ps"
  by (induction ps) simp_all

lemma nth_carried:
  "i < length ps \<Longrightarrow> carried ps ! i = fill (firstWeight (drop (Suc i) ps)) (ps ! i)"
proof (induction ps arbitrary: i)
  case Nil
  then show ?case by simp
next
  case (Cons p ps)
  then show ?case by (cases i) simp_all
qed

lemma rev_reversedPoints:
  "rev (reversedPoints isoDate dayMonth allDays logs) =
     carried (map (initialPoint isoDate dayMonth (logsByDate logs)) allDays)"
  by (simp add: reversedPoints_def initialPoints_def rev_carry)

lemma weight_fill:
  "weight (fill a p) = (if hasActualWeight p then weight p else if a \<noteq> None then a else weight p)"
  by (simp add: fill_def)

lemma date_fill: "date (fill a p) = date p"
  by (simp add: fill_def)


lemma date_withDefault: "date (withDefault dflt p) = date p"
  by (simp add: withDefault_def)

lemma date_initialPoint: "date (initialPoint isoDate dayMonth byDate d) = isoDate d"
  by (simp add: initialPoint_def Let_def)


lemma initialPoint_weight_None:
  "\<not> hasActualWeight (initialPoint isoDate dayMonth byDate d) \<Longrightarrow>
   weight (initialPoint isoDate dayMonth byDate d) = None"
  by (simp add: initialPoint_def Let_def)

lemma initialPoint_weight_Some:
  "hasActualWeight (initialPoint isoDate dayMonth byDate d) =
     (weight (initialPoint isoDate dayMonth byDate d) \<noteq> None)"
  by (simp add: initialPoint_def Let_def)

lemma find_map_option: "find P (map f xs) = map_option f (find (\<lambda>x. P (f x)) xs)"
  by (induction xs) auto

lemma find_SomeD: "find P xs = Some x \<Longrightarrow> x \<in> set xs \<and> P x"
  by (induction xs) (auto split: if_splits)

text \<open>The first weight among the points of some days, in terms of the days.\<close>

lemma firstWeight_map:
  "firstWeight (map f ds) =
     (case find (\<lambda>d. hasActualWeight (f d)) ds of None \<Rightarrow> None | Some d \<Rightarrow> weight (f d))"
  by (simp add: firstWeight_def find_map_option split: option.splits)

lemma firstWeight_none:
  "(\<And>p. p \<in> set ps \<Longrightarrow> \<not> hasActualWeight p) \<Longrightarrow> firstWeight ps = None"
proof -
  assume "\<And>p. p \<in> set ps \<Longrightarrow> \<not> hasActualWeight p"
  then have "find hasActualWeight ps = None"
    by (simp add: find_None_iff)
  then show ?thesis by (simp add: firstWeight_def)
qed

text \<open>The first weight after index \<open>k\<close> is that of the point at \<open>n\<close> when no point
  between them has a weight of its own.\<close>

lemma firstWeight_drop:
  assumes "k < n" and "n < length ps" and "hasActualWeight (ps ! n)"
    and "\<And>m. k < m \<Longrightarrow> m < n \<Longrightarrow> \<not> hasActualWeight (ps ! m)"
  shows "firstWeight (drop (Suc k) ps) = weight (ps ! n)"
proof -
  let ?i = "n - Suc k"
  have i: "?i < length (drop (Suc k) ps)" using assms(1,2) by simp
  have at: "drop (Suc k) ps ! ?i = ps ! n" using assms(1,2) by simp
  have before: "\<not> hasActualWeight (drop (Suc k) ps ! j)" if "j < ?i" for j
  proof -
    from that assms(1,2) have "drop (Suc k) ps ! j = ps ! (Suc k + j)" by simp
    moreover from that have "k < Suc k + j" "Suc k + j < n" by simp_all
    ultimately show ?thesis using assms(4) by simp
  qed
  have "find hasActualWeight (drop (Suc k) ps) = Some (ps ! n)"
    unfolding find_Some_iff
    using i at before assms(3) by (intro exI [of _ ?i]) simp
  then show ?thesis by (simp add: firstWeight_def)
qed

text \<open>For points whose flag says whether they have a weight, as the initial points do:
  a point has a weight after the carry pass exactly when it or a later point has one of its
  own.\<close>

lemma firstWeight_None_iff:
  assumes "\<And>p. p \<in> set ps \<Longrightarrow> hasActualWeight p = (weight p \<noteq> None)"
  shows "(firstWeight ps = None) = (\<forall>p \<in> set ps. \<not> hasActualWeight p)"
proof (cases "find hasActualWeight ps")
  case None
  then have "\<forall>p \<in> set ps. \<not> hasActualWeight p" by (simp add: find_None_iff)
  moreover from None have "firstWeight ps = None" by (simp add: firstWeight_def)
  ultimately show ?thesis by simp
next
  case (Some q)
  then have q: "q \<in> set ps \<and> hasActualWeight q" by (rule find_SomeD)
  with assms have "weight q \<noteq> None" by blast
  with Some have "firstWeight ps \<noteq> None" by (simp add: firstWeight_def)
  with q show ?thesis by blast
qed

lemma carried_weight_None:
  assumes inv: "\<And>p. p \<in> set ps \<Longrightarrow> hasActualWeight p = (weight p \<noteq> None)"
    and k: "k < length ps"
  shows "(weight (carried ps ! k) = None) =
     (\<forall>j. k \<le> j \<and> j < length ps \<longrightarrow> \<not> hasActualWeight (ps ! j))"
proof -
  have inv': "\<And>p. p \<in> set (drop (Suc k) ps) \<Longrightarrow> hasActualWeight p = (weight p \<noteq> None)"
    using inv by (blast dest: in_set_dropD)
  have later: "(firstWeight (drop (Suc k) ps) = None) =
      (\<forall>j. k < j \<and> j < length ps \<longrightarrow> \<not> hasActualWeight (ps ! j))"
  proof -
    have "(\<forall>p \<in> set (drop (Suc k) ps). \<not> hasActualWeight p) =
        (\<forall>j. k < j \<and> j < length ps \<longrightarrow> \<not> hasActualWeight (ps ! j))"
    proof
      assume a: "\<forall>p \<in> set (drop (Suc k) ps). \<not> hasActualWeight p"
      show "\<forall>j. k < j \<and> j < length ps \<longrightarrow> \<not> hasActualWeight (ps ! j)"
      proof (intro allI impI)
        fix j assume j: "k < j \<and> j < length ps"
        then have "drop (Suc k) ps ! (j - Suc k) = ps ! j" by auto
        moreover from j have "j - Suc k < length (drop (Suc k) ps)" by auto
        ultimately have "ps ! j \<in> set (drop (Suc k) ps)" by (metis nth_mem)
        with a show "\<not> hasActualWeight (ps ! j)" by blast
      qed
    next
      assume a: "\<forall>j. k < j \<and> j < length ps \<longrightarrow> \<not> hasActualWeight (ps ! j)"
      show "\<forall>p \<in> set (drop (Suc k) ps). \<not> hasActualWeight p"
      proof
        fix p assume "p \<in> set (drop (Suc k) ps)"
        then obtain i where i: "i < length (drop (Suc k) ps)" "p = drop (Suc k) ps ! i"
          by (metis in_set_conv_nth)
        then have "p = ps ! (Suc k + i)" "k < Suc k + i" "Suc k + i < length ps" by simp_all
        with a show "\<not> hasActualWeight p" by blast
      qed
    qed
    then show ?thesis by (simp only: firstWeight_None_iff [OF inv'])
  qed
  have here: "hasActualWeight (ps ! k) = (weight (ps ! k) \<noteq> None)"
    using inv k by simp
  have split: "(\<forall>j. k \<le> j \<and> j < length ps \<longrightarrow> \<not> hasActualWeight (ps ! j)) =
      (\<not> hasActualWeight (ps ! k) \<and> (\<forall>j. k < j \<and> j < length ps \<longrightarrow> \<not> hasActualWeight (ps ! j)))"
    using k by (metis order_le_less)
  show ?thesis
  proof (cases "hasActualWeight (ps ! k)")
    case True
    with here have "weight (carried ps ! k) \<noteq> None"
      using k by (simp add: nth_carried weight_fill)
    with True split show ?thesis by blast
  next
    case False
    with here have "weight (carried ps ! k) = firstWeight (drop (Suc k) ps)"
      using k by (simp add: nth_carried weight_fill)
    with False split later show ?thesis by (simp only:) simp
  qed
qed

lemma initialPoints_inv:
  "p \<in> set (map (initialPoint isoDate dayMonth byDate) ds) \<Longrightarrow>
   hasActualWeight p = (weight p \<noteq> None)"
proof -
  assume "p \<in> set (map (initialPoint isoDate dayMonth byDate) ds)"
  then obtain d where "p = initialPoint isoDate dayMonth byDate d" by auto
  then show ?thesis by (simp only: initialPoint_weight_Some)
qed

lemma weight_withDefault:
  "(weight (withDefault dflt p) = None) = (weight p = None \<and> dflt = None)"
  by (cases "weight p") (simp_all add: withDefault_def)

lemma weightPoints_carried:
  "weightPoints isoDate dayMonth dflt allDays logs =
     filter (\<lambda>p. weight p \<noteq> None)
       (map (withDefault dflt)
          (carried (map (initialPoint isoDate dayMonth (logsByDate logs)) allDays)))"
  by (simp add: weightPoints_def rev_reversedPoints)

text \<open>Two facts about a filter that keeps a prefix.\<close>

lemma filter_take:
  "n \<le> length xs \<Longrightarrow> (\<And>j. j < n \<Longrightarrow> P (xs ! j)) \<Longrightarrow>
   (\<And>j. n \<le> j \<Longrightarrow> j < length xs \<Longrightarrow> \<not> P (xs ! j)) \<Longrightarrow> filter P xs = take n xs"
proof (induction xs arbitrary: n)
  case Nil
  show ?case by simp
next
  case (Cons x xs)
  show ?case
  proof (cases n)
    case 0
    have "\<not> P y" if "y \<in> set (x # xs)" for y
    proof -
      from that obtain j where "j < length (x # xs)" "y = (x # xs) ! j"
        by (metis in_set_conv_nth)
      with Cons.prems(3) [of j] 0 show ?thesis by simp
    qed
    then have "filter P (x # xs) = []" by (simp only: filter_empty_conv) blast
    with 0 show ?thesis by simp
  next
    case (Suc m)
    from Cons.prems(2) [of 0] Suc have x: "P x" by simp
    have "filter P xs = take m xs"
    proof (rule Cons.IH)
      show "m \<le> length xs" using Cons.prems(1) Suc by simp
      show "P (xs ! j)" if "j < m" for j using Cons.prems(2) [of "Suc j"] that Suc by simp
      show "\<not> P (xs ! j)" if "m \<le> j" "j < length xs" for j
        using Cons.prems(3) [of "Suc j"] that Suc by simp
    qed
    with x Suc show ?thesis by simp
  qed
qed


lemma length_filter_eq_iff: "(length (filter P xs) = length xs) = (\<forall>x\<in>set xs. P x)"
proof (induction xs)
  case Nil
  show ?case by simp
next
  case (Cons a xs)
  show ?case
  proof (cases "P a")
    case True
    with Cons show ?thesis by simp
  next
    case False
    have "length (filter P xs) \<noteq> Suc (length xs)"
      using length_filter_le [of P xs] by linarith
    with False show ?thesis by simp
  qed
qed


text \<open>The series has at most one point per day that the loop has built, and exactly one
  per day when every such day has a logged weight, a later day with one, or the default
  weight is there.\<close>

lemma length_weightPoints:
  fixes isoDate dayMonth :: "int \<Rightarrow> string"
  shows "length (weightPoints isoDate dayMonth dflt allDays logs) \<le> length allDays
    \<and> (length (weightPoints isoDate dayMonth dflt allDays logs) = length allDays \<longleftrightarrow>
        (\<forall>i. i < length allDays \<longrightarrow>
           (\<exists>n. i \<le> n \<and> n < length allDays \<and>
              hasActualWeight (initialPoint isoDate dayMonth (logsByDate logs) (allDays ! n)))
           \<or> dflt \<noteq> None))"
proof -
  let ?ip = "initialPoint isoDate dayMonth (logsByDate logs)"
  let ?ps = "map ?ip allDays"
  let ?xs = "map (withDefault dflt) (carried ?ps)"
  have inv: "\<And>p. p \<in> set ?ps \<Longrightarrow> hasActualWeight p = (weight p \<noteq> None)"
    by (rule initialPoints_inv)
  have len: "length ?xs = length allDays" by (simp add: length_carried)
  have res: "(weight (?xs ! i) \<noteq> None) =
      ((\<exists>n. i \<le> n \<and> n < length allDays \<and> hasActualWeight (?ip (allDays ! n))) \<or> dflt \<noteq> None)"
    if "i < length allDays" for i
  proof -
    from that have "(weight (carried ?ps ! i) = None) =
        (\<forall>n. i \<le> n \<and> n < length ?ps \<longrightarrow> \<not> hasActualWeight (?ps ! n))"
      by (intro carried_weight_None inv) simp_all
    then have "(weight (carried ?ps ! i) = None) =
        (\<forall>n. i \<le> n \<and> n < length allDays \<longrightarrow> \<not> hasActualWeight (?ip (allDays ! n)))"
      by auto
    moreover from that have "?xs ! i = withDefault dflt (carried ?ps ! i)"
      by (simp add: length_carried)
    ultimately show ?thesis
      by (simp only: weight_withDefault) auto
  qed
  have "(\<forall>x \<in> set ?xs. weight x \<noteq> None) = (\<forall>i. i < length ?xs \<longrightarrow> weight (?xs ! i) \<noteq> None)"
    by (metis in_set_conv_nth nth_mem)
  also have "\<dots> = (\<forall>i. i < length allDays \<longrightarrow>
      (\<exists>n. i \<le> n \<and> n < length allDays \<and> hasActualWeight (?ip (allDays ! n))) \<or> dflt \<noteq> None)"
    using res len by auto
  finally have eq: "(length (filter (\<lambda>p. weight p \<noteq> None) ?xs) = length ?xs) =
      (\<forall>i. i < length allDays \<longrightarrow>
      (\<exists>n. i \<le> n \<and> n < length allDays \<and> hasActualWeight (?ip (allDays ! n))) \<or> dflt \<noteq> None)"
    by (simp only: length_filter_eq_iff)
  have "length (filter (\<lambda>p. weight p \<noteq> None) ?xs) \<le> length ?xs"
    by (rule length_filter_le)
  with eq len show ?thesis
    by (simp only: weightPoints_carried)
qed

section \<open>The map of the logs\<close>

lemma setLog_apply:
  "setLog x m k = (if daily_log.date x = Some k then Some x else m k)"
  by (cases "daily_log.date x") (auto simp: setLog_def)

lemma logsByDate_snoc:
  "logsByDate (xs @ [x]) = (if hasDate x then setLog x (logsByDate xs) else logsByDate xs)"
  by (simp add: logsByDate_def)

text \<open>The map holds, under a date string, the last log delivered with that date.\<close>

lemma logsByDate_find:
  "logsByDate logs k = find (\<lambda>l. hasDate l \<and> daily_log.date l = Some k) (rev logs)"
proof (induction logs rule: rev_induct)
  case Nil
  show ?case by (simp add: logsByDate_def)
next
  case (snoc x xs)
  then show ?case
    by (simp add: logsByDate_snoc setLog_apply)
qed

lemma find_append:
  "find P (xs @ ys) = (case find P xs of None \<Rightarrow> find P ys | Some x \<Rightarrow> Some x)"
  by (induction xs) auto

lemma find_filter_imp: "(\<And>x. P x \<Longrightarrow> Q x) \<Longrightarrow> find P (filter Q xs) = find P xs"
  by (induction xs) auto

lemma find_cong_set: "(\<And>x. x \<in> set xs \<Longrightarrow> P x = Q x) \<Longrightarrow> find P xs = find Q xs"
  by (induction xs) auto

text \<open>The series depends on the logs only through the weight found for each of the
  days.\<close>

lemma initialPoints_cong:
  assumes "\<And>d. d \<in> set allDays \<Longrightarrow>
     logWeight (logsByDate A (isoDate d)) = logWeight (logsByDate B (isoDate d))"
  shows "initialPoints isoDate dayMonth allDays A = initialPoints isoDate dayMonth allDays B"
proof -
  have "initialPoint isoDate dayMonth (logsByDate A) d = initialPoint isoDate dayMonth (logsByDate B) d"
    if "d \<in> set allDays" for d
    using that assms [of d] by (simp add: initialPoint_def Let_def)
  then show ?thesis
    unfolding initialPoints_def by (rule map_cong [OF refl])
qed

lemma weightPoints_cong:
  assumes "\<And>d. d \<in> set allDays \<Longrightarrow>
     logWeight (logsByDate A (isoDate d)) = logWeight (logsByDate B (isoDate d))"
  shows "weightPoints isoDate dayMonth dflt allDays A = weightPoints isoDate dayMonth dflt allDays B"
  using initialPoints_cong [of allDays A isoDate B dayMonth, OF assms]
  by (simp add: weightPoints_def reversedPoints_def)

text \<open>Logs whose date is not the date of one of the days can be left out.\<close>

lemma weightPoints_filter:
  assumes "\<And>l d. d \<in> set allDays \<Longrightarrow> daily_log.date l = Some (isoDate d) \<Longrightarrow> Q l"
  shows "weightPoints isoDate dayMonth dflt allDays logs =
     weightPoints isoDate dayMonth dflt allDays (filter Q logs)"
proof (rule weightPoints_cong)
  fix d assume d: "d \<in> set allDays"
  have "find (\<lambda>l. hasDate l \<and> daily_log.date l = Some (isoDate d)) (filter Q (rev logs)) =
      find (\<lambda>l. hasDate l \<and> daily_log.date l = Some (isoDate d)) (rev logs)"
    using d assms by (intro find_filter_imp) blast
  then show "logWeight (logsByDate logs (isoDate d)) =
      logWeight (logsByDate (filter Q logs) (isoDate d))"
    by (simp add: logsByDate_find rev_filter)
qed

section \<open>The example data, evaluated\<close>

lemmas example_defs =
  initialPoint_def logsByDate_def hasDate_def setLog_def logWeight_def Let_def
  utcIsoDate_def utcDayMonth_def utcGetDate_def twoDigits_def threeDays_def

lemma threeDays_iso:
  "map utcIsoDate threeDays = [''2024-03-01'', ''2024-03-02'', ''2024-03-03'']"
  by (simp add: example_defs)

text \<open>With the start date at noon of 1 March and \<^verbatim>\<open>now\<close> at noon of 3 March the loop
  builds the three days.\<close>

lemma threeDays_loop:
  "allDaysInRange utcGetDate utcSetDate 1709294400000 1709467200000 = Some threeDays"
  by (simp add: allDaysInRange.simps utcSetDate_def utcGetDate_def threeDays_def)

lemma logsDay2_anchored:
  "map (\<lambda>d. hasActualWeight (initialPoint utcIsoDate utcDayMonth (logsByDate logsDay2) d)) threeDays
     = [False, True, False]"
  by (simp add: logsDay2_def example_defs)

lemma logsDay2_weight:
  "weight (initialPoint utcIsoDate utcDayMonth (logsByDate logsDay2) (threeDays ! 1)) = Some 80"
  by (simp add: logsDay2_def example_defs)


lemma ex_weightPoints_75:
  "weightPoints utcIsoDate utcDayMonth (Some 75) threeDays logsDay2 =
     [\<lparr> date = ''2024-03-01'', formattedDate = ''01.03.'', weight = Some 80 \<rparr>,
      \<lparr> date = ''2024-03-02'', formattedDate = ''02.03.'', weight = Some 80 \<rparr>,
      \<lparr> date = ''2024-03-03'', formattedDate = ''03.03.'', weight = Some 75 \<rparr>]"
  by (simp add: weightPoints_def reversedPoints_def initialPoints_def
      withDefault_def logsDay2_def example_defs)

lemma ex_weightPoints_None:
  "weightPoints utcIsoDate utcDayMonth None threeDays logsDay2 =
     [\<lparr> date = ''2024-03-01'', formattedDate = ''01.03.'', weight = Some 80 \<rparr>,
      \<lparr> date = ''2024-03-02'', formattedDate = ''02.03.'', weight = Some 80 \<rparr>]"
  by (simp add: weightPoints_def reversedPoints_def initialPoints_def
      withDefault_def logsDay2_def example_defs)

lemma ex_weightPoints_nullEntry:
  "weightPoints utcIsoDate utcDayMonth None threeDays (logsDay2 @ [nullEntryDay2]) = []"
  by (simp add: weightPoints_def reversedPoints_def initialPoints_def
      withDefault_def logsDay2_def nullEntryDay2_def example_defs)

lemma ex_weightPoints_february:
  "weightPoints utcIsoDate utcDayMonth (Some 75) threeDays [februaryEntry] =
     [\<lparr> date = ''2024-03-01'', formattedDate = ''01.03.'', weight = Some 75 \<rparr>,
      \<lparr> date = ''2024-03-02'', formattedDate = ''02.03.'', weight = Some 75 \<rparr>,
      \<lparr> date = ''2024-03-03'', formattedDate = ''03.03.'', weight = Some 75 \<rparr>]"
  by (simp add: weightPoints_def reversedPoints_def initialPoints_def
      withDefault_def februaryEntry_def example_defs)

lemma februaryEntry_not_enumerated:
  "\<forall>d \<in> set threeDays. daily_log.date februaryEntry \<noteq> Some (utcIsoDate d)"
  by (simp add: februaryEntry_def example_defs)

text \<open>The load of 17 March with the second clock read one millisecond after the first:
  the start date, and the days the loop builds (3 to 16 March, at 12:00:00.001).\<close>

lemma skew_start: "utcSetDate (noon17 + 1) (utcGetDate noon17 - 14) = 1709467200001"
  by (simp add: utcSetDate_def utcGetDate_def noon17_def)

lemma skew_days:
  "allDaysInRange utcGetDate utcSetDate 1709467200001 noon17 =
     Some [1709467200001, 1709553600001, 1709640000001, 1709726400001,
           1709812800001, 1709899200001, 1709985600001, 1710072000001,
           1710158400001, 1710244800001, 1710331200001, 1710417600001,
           1710504000001, 1710590400001]"
  by (simp add: allDaysInRange.simps utcSetDate_def utcGetDate_def noon17_def)

lemma skew_loop:
  "allDaysInRange utcGetDate utcSetDate
     (utcSetDate (noon17 + 1) (utcGetDate noon17 - timeRange state14)) noon17 = Some skewDays"
  by (simp add: state14_def skew_start skew_days skewDays_def)

lemmas skew_eval =
  weightPoints_def reversedPoints_def initialPoints_def withDefault_def initialPoint_def
  logsByDate_def hasDate_def setLog_def logWeight_def Let_def utcIsoDate_def utcDayMonth_def
  utcGetDate_def twoDigits_def skewDays_def

lemma skew_dates: "map utcIsoDate skewDays =
     [''2024-03-03'', ''2024-03-04'', ''2024-03-05'', ''2024-03-06'', ''2024-03-07'',
      ''2024-03-08'', ''2024-03-09'', ''2024-03-10'', ''2024-03-11'', ''2024-03-12'',
      ''2024-03-13'', ''2024-03-14'', ''2024-03-15'', ''2024-03-16'']"
  by (simp add: skew_eval)

lemma utc_advances: "t < utcSetDate t (utcGetDate t + 1)"
  by (simp add: utcSetDate_def)

lemma skew_load:
  "loadWeightData utcGetDate utcSetDate utcIsoDate utcDayMonth profile75 noon17 (noon17 + 1)
     logToday80 state14 =
   Some \<lparr> weightData =
            map (\<lambda>t. \<lparr> date = utcIsoDate t, formattedDate = utcDayMonth t, weight = Some 75 \<rparr>)
              [1709467200001, 1709553600001, 1709640000001, 1709726400001,
               1709812800001, 1709899200001, 1709985600001, 1710072000001,
               1710158400001, 1710244800001, 1710331200001, 1710417600001,
               1710504000001, 1710590400001],
          defaultWeight = Some 75, timeRange = 14 \<rparr>"
proof -
  have "weightSeries utcGetDate utcSetDate utcIsoDate utcDayMonth (Some 75) 1709467200001 noon17
      logToday80 =
    Some (map (\<lambda>t. \<lparr> date = utcIsoDate t, formattedDate = utcDayMonth t, weight = Some 75 \<rparr>)
              [1709467200001, 1709553600001, 1709640000001, 1709726400001,
               1709812800001, 1709899200001, 1709985600001, 1710072000001,
               1710158400001, 1710244800001, 1710331200001, 1710417600001,
               1710504000001, 1710590400001])"
    by (simp only: weightSeries_def skew_days option.map)
      (simp add: weightPoints_def reversedPoints_def initialPoints_def withDefault_def
        logToday80_def initialPoint_def logsByDate_def hasDate_def setLog_def logWeight_def
        Let_def utcIsoDate_def utcDayMonth_def utcGetDate_def twoDigits_def)
  then show ?thesis
    by (simp add: loadWeightData_def Let_def state14_def skew_start profile75_def
        profileWeightOrNull_def)
qed

section \<open>What holds for the days the loop builds\<close>

text \<open>
  In this section and in the theorems of the next \<open>allDays\<close> is the array the day loop
  has built; the statements hold for every such array, so for whatever days the loop
  builds from the start date and \<^verbatim>\<open>now\<close>. A day of the array is called anchored when
  its initial point has a weight of its own (\<^verbatim>\<open>hasActualWeight\<close>); a log whose date is
  the date of no day of the array anchors nothing.
\<close>

text \<open>
  Backward carry: after the carry pass, a day of the array without a logged weight has the
  weight of the nearest later day of the array that has one (the first such day among the
  days after it), and no weight when there is no such day. In particular, when the day at
  index \<open>N\<close> is the only day of the array with a logged weight, every earlier day has
  that day's weight and every later day stays without one. The points after the carry
  pass, in ascending order, stand at the indices of their days.
\<close>

lemma carry_nearest_later_day:
  fixes isoDate dayMonth :: "int \<Rightarrow> string"
  shows
  "(i < length allDays \<and>
    \<not> hasActualWeight (initialPoint isoDate dayMonth (logsByDate logs) (allDays ! i)) \<longrightarrow>
      weight (rev (reversedPoints isoDate dayMonth allDays logs) ! i) =
        (case find (\<lambda>d. hasActualWeight (initialPoint isoDate dayMonth (logsByDate logs) d))
                (drop (Suc i) allDays) of
           None \<Rightarrow> None
         | Some d \<Rightarrow> weight (initialPoint isoDate dayMonth (logsByDate logs) d)))
   \<and> (N < length allDays \<and>
      hasActualWeight (initialPoint isoDate dayMonth (logsByDate logs) (allDays ! N)) \<and>
      (\<forall>n. n < length allDays \<and> n \<noteq> N \<longrightarrow>
         \<not> hasActualWeight (initialPoint isoDate dayMonth (logsByDate logs) (allDays ! n))) \<longrightarrow>
        (\<forall>k. k < N \<longrightarrow>
           weight (rev (reversedPoints isoDate dayMonth allDays logs) ! k) =
             weight (initialPoint isoDate dayMonth (logsByDate logs) (allDays ! N))) \<and>
        (\<forall>k. N < k \<and> k < length allDays \<longrightarrow>
           weight (rev (reversedPoints isoDate dayMonth allDays logs) ! k) = None))"
proof (intro conjI impI allI)
  let ?ip = "initialPoint isoDate dayMonth (logsByDate logs)"
  let ?ps = "map ?ip allDays"
  let ?cp = "\<lambda>k. rev (reversedPoints isoDate dayMonth allDays logs) ! k"
  have nth: "weight (?cp k) =
      (if hasActualWeight (?ip (allDays ! k)) then weight (?ip (allDays ! k))
       else if firstWeight (drop (Suc k) ?ps) \<noteq> None then firstWeight (drop (Suc k) ?ps)
       else weight (?ip (allDays ! k)))"
    if "k < length allDays" for k
    using that by (simp add: rev_reversedPoints nth_carried weight_fill del: not_None_eq)
  {
    assume a: "i < length allDays \<and> \<not> hasActualWeight (?ip (allDays ! i))"
    then have "weight (?cp i) = firstWeight (drop (Suc i) ?ps)"
      by (simp add: nth initialPoint_weight_None)
    then show "weight (?cp i) =
        (case find (\<lambda>d. hasActualWeight (?ip d)) (drop (Suc i) allDays) of
           None \<Rightarrow> None | Some d \<Rightarrow> weight (?ip d))"
      by (simp add: drop_map firstWeight_map)
  }
  {
    fix k
    assume a: "N < length allDays \<and> hasActualWeight (?ip (allDays ! N)) \<and>
      (\<forall>n. n < length allDays \<and> n \<noteq> N \<longrightarrow> \<not> hasActualWeight (?ip (allDays ! n)))"
    {
      assume k: "k < N"
      with a have kl: "k < length allDays" by simp
      from a k have nk: "\<not> hasActualWeight (?ip (allDays ! k))" by simp
      have "firstWeight (drop (Suc k) ?ps) = weight (?ps ! N)"
      proof (rule firstWeight_drop [OF k])
        show "N < length ?ps" using a by simp
        show "hasActualWeight (?ps ! N)" using a by simp
        show "\<not> hasActualWeight (?ps ! m)" if "k < m" "m < N" for m
          using that a by simp
      qed
      then have fw: "firstWeight (drop (Suc k) ?ps) = weight (?ip (allDays ! N))"
        using a by simp
      moreover from a have "weight (?ip (allDays ! N)) \<noteq> None"
        by (simp add: initialPoint_weight_Some)
      ultimately show "weight (?cp k) = weight (?ip (allDays ! N))"
        using nk kl by (simp add: nth)
    }
    {
      assume k: "N < k \<and> k < length allDays"
      with a have nk: "\<not> hasActualWeight (?ip (allDays ! k))" by simp
      have "firstWeight (drop (Suc k) ?ps) = None"
      proof (rule firstWeight_none)
        fix p assume "p \<in> set (drop (Suc k) ?ps)"
        then obtain j where j: "j < length (drop (Suc k) ?ps)" "p = drop (Suc k) ?ps ! j"
          by (metis in_set_conv_nth)
        then have "p = ?ip (allDays ! (Suc k + j))" "Suc k + j < length allDays" "Suc k + j \<noteq> N"
          using k by simp_all
        with a show "\<not> hasActualWeight p" by blast
      qed
      with k nk show "weight (?cp k) = None"
        by (simp add: nth initialPoint_weight_None)
    }
  }
qed

lemma carry_nearest_later_day_example:
  "(0::nat) < length threeDays
   \<and> \<not> hasActualWeight (initialPoint utcIsoDate utcDayMonth (logsByDate logsDay2) (threeDays ! 0))
   \<and> hasActualWeight (initialPoint utcIsoDate utcDayMonth (logsByDate logsDay2) (threeDays ! 1))
   \<and> weight (rev (reversedPoints utcIsoDate utcDayMonth threeDays logsDay2) ! 0) = Some 80
   \<and> weight (rev (reversedPoints utcIsoDate utcDayMonth threeDays logsDay2) ! 2) = None"
proof -
  let ?ip = "initialPoint utcIsoDate utcDayMonth (logsByDate logsDay2)"
  have len: "length threeDays = 3" by (simp add: threeDays_def)
  have a: "\<not> hasActualWeight (?ip (threeDays ! 0))" "hasActualWeight (?ip (threeDays ! 1))"
    "\<not> hasActualWeight (?ip (threeDays ! 2))"
    using logsDay2_anchored by (simp_all add: threeDays_def)
  have others: "\<forall>n. n < length threeDays \<and> n \<noteq> 1 \<longrightarrow> \<not> hasActualWeight (?ip (threeDays ! n))"
  proof (intro allI impI)
    fix n assume "n < length threeDays \<and> n \<noteq> 1"
    with len have "n = 0 \<or> n = 2" by arith
    with a show "\<not> hasActualWeight (?ip (threeDays ! n))" by blast
  qed
  note t = carry_nearest_later_day [of _ threeDays utcIsoDate utcDayMonth logsDay2 1]
  from t len a(2) others
  have b: "(\<forall>k. k < 1 \<longrightarrow>
        weight (rev (reversedPoints utcIsoDate utcDayMonth threeDays logsDay2) ! k) = weight (?ip (threeDays ! 1)))
      \<and> (\<forall>k. 1 < k \<and> k < length threeDays \<longrightarrow>
        weight (rev (reversedPoints utcIsoDate utcDayMonth threeDays logsDay2) ! k) = None)"
    by simp
  from b logsDay2_weight
  have "weight (rev (reversedPoints utcIsoDate utcDayMonth threeDays logsDay2) ! 0) = Some 80"
    by simp
  moreover from b len
  have "weight (rev (reversedPoints utcIsoDate utcDayMonth threeDays logsDay2) ! 2) = None"
    by simp
  ultimately show ?thesis
    using a len by simp
qed

text \<open>
  With no profile weight and \<open>L\<close> the index of the last day of the array that has a
  logged weight, the series is the unbroken run of the days of the array up to that day:
  its dates are those of the first \<open>L + 1\<close> days in order, and it is the first
  \<open>L + 1\<close> points of the carry pass, so the dropped days are the days after it. The
  array the loop builds begins with the start date, and each of its days is
  \<^verbatim>\<open>setDate(getDate() + 1)\<close> of the day before.
\<close>

lemma series_is_prefix_to_last_anchor:
  fixes isoDate dayMonth :: "int \<Rightarrow> string"
  assumes "L < length allDays"
    and "hasActualWeight (initialPoint isoDate dayMonth (logsByDate logs) (allDays ! L))"
    and "\<forall>n. L < n \<and> n < length allDays \<longrightarrow>
           \<not> hasActualWeight (initialPoint isoDate dayMonth (logsByDate logs) (allDays ! n))"
  shows "map date (weightPoints isoDate dayMonth None allDays logs) = map isoDate (take (Suc L) allDays)
    \<and> weightPoints isoDate dayMonth None allDays logs =
        map (withDefault None) (take (Suc L) (rev (reversedPoints isoDate dayMonth allDays logs)))
    \<and> (allDaysInRange getDate setDate startDate now = Some allDays \<longrightarrow>
         allDays ! 0 = startDate
       \<and> (\<forall>j. Suc j < length allDays \<longrightarrow>
            allDays ! Suc j = setDate (allDays ! j) (getDate (allDays ! j) + 1)))"
proof -
  let ?ip = "initialPoint isoDate dayMonth (logsByDate logs)"
  let ?ps = "map ?ip allDays"
  let ?xs = "map (withDefault None) (carried ?ps)"
  have inv: "\<And>p. p \<in> set ?ps \<Longrightarrow> hasActualWeight p = (weight p \<noteq> None)"
    by (rule initialPoints_inv)
  have len: "length ?xs = length allDays" by (simp add: length_carried)
  have w: "(weight (?xs ! j) = None) =
      (\<forall>n. j \<le> n \<and> n < length allDays \<longrightarrow> \<not> hasActualWeight (?ip (allDays ! n)))"
    if "j < length allDays" for j
  proof -
    from that have "?xs ! j = withDefault None (carried ?ps ! j)"
      by (simp add: length_carried)
    moreover from that have "(weight (carried ?ps ! j) = None) =
        (\<forall>n. j \<le> n \<and> n < length ?ps \<longrightarrow> \<not> hasActualWeight (?ps ! n))"
      by (intro carried_weight_None inv) simp_all
    ultimately show ?thesis
      by (simp only: weight_withDefault) auto
  qed
  have "filter (\<lambda>p. weight p \<noteq> None) ?xs = take (Suc L) ?xs"
  proof (rule filter_take)
    show "Suc L \<le> length ?xs" using assms(1) len by simp
    show "weight (?xs ! j) \<noteq> None" if "j < Suc L" for j
    proof -
      from that assms(1) have j: "j < length allDays" "j \<le> L" by simp_all
      with assms(1,2) have "\<not> (\<forall>n. j \<le> n \<and> n < length allDays \<longrightarrow> \<not> hasActualWeight (?ip (allDays ! n)))"
        by blast
      with w [OF j(1)] show ?thesis by simp
    qed
    show "\<not> weight (?xs ! j) \<noteq> None" if "Suc L \<le> j" "j < length ?xs" for j
    proof -
      from that len have j: "j < length allDays" "L < j" by simp_all
      with assms(3) have "\<forall>n. j \<le> n \<and> n < length allDays \<longrightarrow> \<not> hasActualWeight (?ip (allDays ! n))"
        by simp
      with w [OF j(1)] show ?thesis by simp
    qed
  qed
  then have wp: "weightPoints isoDate dayMonth None allDays logs =
      map (withDefault None) (take (Suc L) (carried ?ps))"
    by (simp only: weightPoints_carried take_map)
  have dates: "map date (map (withDefault None) (take (Suc L) (carried ?ps))) =
      map isoDate (take (Suc L) allDays)"
  proof (rule nth_equalityI)
    show "length (map date (map (withDefault None) (take (Suc L) (carried ?ps)))) =
        length (map isoDate (take (Suc L) allDays))"
      by (simp add: length_carried)
    fix j assume "j < length (map date (map (withDefault None) (take (Suc L) (carried ?ps))))"
    then have j: "j < Suc L" "j < length allDays" by (simp_all add: length_carried)
    then show "map date (map (withDefault None) (take (Suc L) (carried ?ps))) ! j =
        map isoDate (take (Suc L) allDays) ! j"
      by (simp add: length_carried nth_carried date_withDefault date_fill date_initialPoint)
  qed
  have chain: "allDays ! 0 = startDate
       \<and> (\<forall>j. Suc j < length allDays \<longrightarrow>
            allDays ! Suc j = setDate (allDays ! j) (getDate (allDays ! j) + 1))"
    if "allDaysInRange getDate setDate startDate now = Some allDays"
  proof -
    from assms(1) have "allDays \<noteq> []" by auto
    with allDaysInRange_chain [OF that] show ?thesis by blast
  qed
  from wp dates chain show ?thesis
    by (simp only: rev_reversedPoints) blast
qed

lemma series_is_prefix_to_last_anchor_example:
  "(1::nat) < length threeDays
   \<and> hasActualWeight (initialPoint utcIsoDate utcDayMonth (logsByDate logsDay2) (threeDays ! 1))
   \<and> \<not> hasActualWeight (initialPoint utcIsoDate utcDayMonth (logsByDate logsDay2) (threeDays ! 2))
   \<and> map date (weightPoints utcIsoDate utcDayMonth None threeDays logsDay2) = [''2024-03-01'', ''2024-03-02'']
   \<and> allDaysInRange utcGetDate utcSetDate 1709294400000 1709467200000 = Some threeDays
   \<and> threeDays ! 0 = 1709294400000"
proof -
  let ?ip = "initialPoint utcIsoDate utcDayMonth (logsByDate logsDay2)"
  have len: "length threeDays = 3" by (simp add: threeDays_def)
  have a: "hasActualWeight (?ip (threeDays ! 1))" "\<not> hasActualWeight (?ip (threeDays ! 2))"
    using logsDay2_anchored by (simp_all add: threeDays_def)
  have h1: "(1::nat) < length threeDays" using len by simp
  have h3: "\<forall>n. 1 < n \<and> n < length threeDays \<longrightarrow> \<not> hasActualWeight (?ip (threeDays ! n))"
  proof (intro allI impI)
    fix n assume "1 < n \<and> n < length threeDays"
    with len have "n = 2" by arith
    with a show "\<not> hasActualWeight (?ip (threeDays ! n))" by blast
  qed
  note t = series_is_prefix_to_last_anchor [OF h1 a(1) h3,
      where getDate = utcGetDate and setDate = utcSetDate and startDate = 1709294400000
        and now = 1709467200000]
  from t have "map date (weightPoints utcIsoDate utcDayMonth None threeDays logsDay2) =
      map utcIsoDate (take (Suc 1) threeDays)"
    by (rule conjunct1)
  moreover have "map utcIsoDate (take (Suc 1) threeDays) = [''2024-03-01'', ''2024-03-02'']"
    by (simp add: example_defs)
  moreover from t [THEN conjunct2, THEN conjunct2, rule_format, OF threeDays_loop]
  have "threeDays ! 0 = 1709294400000" by (rule conjunct1)
  ultimately show ?thesis
    using h1 a threeDays_loop by simp
qed

section \<open>The claims\<close>

text \<open>
  C1. Backward carry over the days of the range. For the days the loop builds the carry
  pass does what the claim says (\<open>carry_nearest_later_day\<close> above), but the loop does not
  always build the last day of the range. In the load of 17 March 2024 with 14 days shown
  and the second clock read one millisecond after the first, the range runs from 3 March
  to 17 March and the only log is today's, with the weight 80; the map holds it under
  today's date, yet the loop builds the 14 days from 3 to 16 March only, and after the
  carry pass none of them has a weight, where the claim gives each of them the weight 80.
\<close>

theorem carry_misses_log_of_today:
  "utcIsoDate noon17 = ''2024-03-17''
   \<and> logsByDate logToday80 (utcIsoDate noon17)
       = Some \<lparr> daily_log.date = Some ''2024-03-17'', weight = Some 80 \<rparr>
   \<and> allDaysInRange utcGetDate utcSetDate
        (utcSetDate (noon17 + 1) (utcGetDate noon17 - timeRange state14)) noon17 = Some skewDays
   \<and> map date (rev (reversedPoints utcIsoDate utcDayMonth skewDays logToday80)) =
       [''2024-03-03'', ''2024-03-04'', ''2024-03-05'', ''2024-03-06'', ''2024-03-07'',
        ''2024-03-08'', ''2024-03-09'', ''2024-03-10'', ''2024-03-11'', ''2024-03-12'',
        ''2024-03-13'', ''2024-03-14'', ''2024-03-15'', ''2024-03-16'']
   \<and> set (map weight (rev (reversedPoints utcIsoDate utcDayMonth skewDays logToday80))) = {None}"
proof (intro conjI)
  show i: "utcIsoDate noon17 = ''2024-03-17''"
    by (simp add: noon17_def utcIsoDate_def utcGetDate_def twoDigits_def)
  show "logsByDate logToday80 (utcIsoDate noon17)
       = Some \<lparr> daily_log.date = Some ''2024-03-17'', weight = Some 80 \<rparr>"
    by (simp only: i) (simp add: logToday80_def logsByDate_def hasDate_def setLog_def)
  show "allDaysInRange utcGetDate utcSetDate
        (utcSetDate (noon17 + 1) (utcGetDate noon17 - timeRange state14)) noon17 = Some skewDays"
    by (rule skew_loop)
  show "map date (rev (reversedPoints utcIsoDate utcDayMonth skewDays logToday80)) =
       [''2024-03-03'', ''2024-03-04'', ''2024-03-05'', ''2024-03-06'', ''2024-03-07'',
        ''2024-03-08'', ''2024-03-09'', ''2024-03-10'', ''2024-03-11'', ''2024-03-12'',
        ''2024-03-13'', ''2024-03-14'', ''2024-03-15'', ''2024-03-16'']"
    by (simp add: skew_eval logToday80_def)
  show "set (map weight (rev (reversedPoints utcIsoDate utcDayMonth skewDays logToday80))) = {None}"
    by (simp add: skew_eval logToday80_def)
qed

text \<open>
  C2. No null weight in the result: every point of the returned series has a weight.
  With a profile weight \<open>w\<close> present, the series keeps every day of the carry pass and a
  day still without a weight gets \<open>w\<close>; with no profile weight, exactly the days
  still without a weight are dropped and the others keep their weight.
\<close>

theorem weightPoints_never_null:
  fixes isoDate dayMonth :: "int \<Rightarrow> string"
  shows
  "(\<forall>p \<in> set (weightPoints isoDate dayMonth dflt allDays logs). weight p \<noteq> None)
   \<and> weightPoints isoDate dayMonth (Some w) allDays logs =
       map (\<lambda>p. \<lparr> date = date p, formattedDate = formattedDate p,
                   weight = (case weight p of None \<Rightarrow> Some w | Some x \<Rightarrow> Some x) \<rparr>)
         (rev (reversedPoints isoDate dayMonth allDays logs))
   \<and> weightPoints isoDate dayMonth None allDays logs =
       map (\<lambda>p. \<lparr> date = date p, formattedDate = formattedDate p, weight = weight p \<rparr>)
         (filter (\<lambda>p. weight p \<noteq> None) (rev (reversedPoints isoDate dayMonth allDays logs)))"
proof (intro conjI)
  show "\<forall>p \<in> set (weightPoints isoDate dayMonth dflt allDays logs). weight p \<noteq> None"
    by (simp add: weightPoints_def)
next
  have "withDefault (Some w) =
      (\<lambda>p. \<lparr> date = date p, formattedDate = formattedDate p,
              weight = (case weight p of None \<Rightarrow> Some w | Some x \<Rightarrow> Some x) \<rparr>)"
    by (rule ext) (simp add: withDefault_def split: option.splits)
  moreover have "\<forall>p. weight (withDefault (Some w) p) \<noteq> None"
    by (simp add: weight_withDefault)
  ultimately show "weightPoints isoDate dayMonth (Some w) allDays logs =
       map (\<lambda>p. \<lparr> date = date p, formattedDate = formattedDate p,
                   weight = (case weight p of None \<Rightarrow> Some w | Some x \<Rightarrow> Some x) \<rparr>)
         (rev (reversedPoints isoDate dayMonth allDays logs))"
    by (simp add: weightPoints_def filter_map comp_def del: not_None_eq)
next
  have "withDefault None = (\<lambda>p. \<lparr> date = date p, formattedDate = formattedDate p, weight = weight p \<rparr>)"
    by (rule ext) (simp add: withDefault_def)
  then show "weightPoints isoDate dayMonth None allDays logs =
       map (\<lambda>p. \<lparr> date = date p, formattedDate = formattedDate p, weight = weight p \<rparr>)
         (filter (\<lambda>p. weight p \<noteq> None) (rev (reversedPoints isoDate dayMonth allDays logs)))"
    by (simp add: weightPoints_def filter_map comp_def del: not_None_eq)
qed

theorem weightPoints_never_null_witness:
  "\<lparr> date = ''2024-03-03'', formattedDate = ''03.03.'', weight = Some 75 \<rparr>
      \<in> set (weightPoints utcIsoDate utcDayMonth (Some 75) threeDays logsDay2)
   \<and> weight \<lparr> date = ''2024-03-03'', formattedDate = ''03.03.'', weight = Some (75::real) \<rparr> \<noteq> None"
proof -
  have m: "\<lparr> date = ''2024-03-03'', formattedDate = ''03.03.'', weight = Some 75 \<rparr>
      \<in> set (weightPoints utcIsoDate utcDayMonth (Some 75) threeDays logsDay2)"
    by (simp add: ex_weightPoints_75)
  from weightPoints_never_null [of utcIsoDate utcDayMonth "Some 75" threeDays logsDay2 75] m
  have "weight \<lparr> date = ''2024-03-03'', formattedDate = ''03.03.'', weight = Some (75::real) \<rparr> \<noteq> None"
    by blast
  with m show ?thesis by blast
qed

text \<open>
  C3. \<^verbatim>\<open>calculateStats\<close>: for the empty series the result is start 0, end 0, change 0
  and trend neutral. For a non-empty series whose first point has weight \<open>a\<close> and whose
  last point has weight \<open>b\<close>, start is \<open>a\<close>, end is \<open>b\<close>, the change is
  \<open>\<bar>b - a\<bar>\<close>, and the trend is down when \<open>b - a < 0\<close>, up when \<open>b - a > 0\<close> and
  neutral otherwise.
\<close>

theorem calculateStats_postcondition:
  "calculateStats [] = \<lparr> start = 0, end' = 0, change = 0, trend = ''neutral'' \<rparr>
   \<and> (wd \<noteq> [] \<and> weight (hd wd) = Some a \<and> weight (last wd) = Some b \<longrightarrow>
        start (calculateStats wd) = a
      \<and> end' (calculateStats wd) = b
      \<and> change (calculateStats wd) = \<bar>b - a\<bar>
      \<and> trend (calculateStats wd) =
          (if b - a < 0 then ''down'' else if b - a > 0 then ''up'' else ''neutral''))"
proof (intro conjI impI)
  show "calculateStats [] = \<lparr> start = 0, end' = 0, change = 0, trend = ''neutral'' \<rparr>"
    by (simp add: calculateStats_def)
next
  assume a: "wd \<noteq> [] \<and> weight (hd wd) = Some a \<and> weight (last wd) = Some b"
  then have h: "wd ! 0 = hd wd" "wd ! (length wd - 1) = last wd" "length wd \<noteq> 0"
    by (simp_all add: hd_conv_nth last_conv_nth)
  have w: "weightOrZero (Some a) = a" "weightOrZero (Some b) = b"
    by (simp_all add: weightOrZero_def)
  from a have s: "calculateStats wd =
      \<lparr> start = a, end' = b, change = \<bar>b - a\<bar>,
        trend = (if b - a < 0 then ''down'' else if b - a > 0 then ''up'' else ''neutral'') \<rparr>"
    unfolding calculateStats_def Let_def h(1,2) using h(3) by (simp only: w if_False)
  show "start (calculateStats wd) = a" by (simp add: s)
  show "end' (calculateStats wd) = b" by (simp add: s)
  show "change (calculateStats wd) = \<bar>b - a\<bar>" by (simp add: s)
  show "trend (calculateStats wd) =
          (if b - a < 0 then ''down'' else if b - a > 0 then ''up'' else ''neutral'')"
    by (simp add: s)
qed

theorem calculateStats_postcondition_witness:
  "series72_70 \<noteq> [] \<and> weight (hd series72_70) = Some 72 \<and> weight (last series72_70) = Some 70
   \<and> start (calculateStats series72_70) = 72
   \<and> end' (calculateStats series72_70) = 70
   \<and> change (calculateStats series72_70) = 2
   \<and> trend (calculateStats series72_70) = ''down''"
proof -
  have h: "series72_70 \<noteq> [] \<and> weight (hd series72_70) = Some 72 \<and> weight (last series72_70) = Some 70"
    by (simp add: series72_70_def)
  from calculateStats_postcondition [of series72_70 72 70, THEN conjunct2, rule_format, OF h] h
  show ?thesis by simp
qed

text \<open>
  C4. The length of the series against the days of the range. The series never has more
  points than the loop has built days (\<open>length_weightPoints\<close> above), but the loop does
  not always build every day of the range: it compares instants, and the start date comes
  from a second clock read. In the load below, on 17 March 2024 with 14 days shown, the
  second read is one millisecond after the first; the range runs from 3 March to
  17 March, 15 days, each of which has a weight to take (the default weight 75 is there,
  and today has a log), yet the loop stops before today and the series has 14 points, the
  last of them for 16 March.
\<close>

theorem today_missing_after_later_clock_read:
  "utcIsoDate (utcSetDate (noon17 + 1) (utcGetDate noon17 - timeRange state14)) = ''2024-03-03''
   \<and> utcIsoDate noon17 = ''2024-03-17''
   \<and> defaultWeight state14 = Some 75
   \<and> map_option (\<lambda>st. map date (weightData st))
        (loadWeightData utcGetDate utcSetDate utcIsoDate utcDayMonth profile75 noon17 (noon17 + 1)
           logToday80 state14) =
       Some [''2024-03-03'', ''2024-03-04'', ''2024-03-05'', ''2024-03-06'', ''2024-03-07'',
             ''2024-03-08'', ''2024-03-09'', ''2024-03-10'', ''2024-03-11'', ''2024-03-12'',
             ''2024-03-13'', ''2024-03-14'', ''2024-03-15'', ''2024-03-16'']
   \<and> map_option (\<lambda>st. length (weightData st))
        (loadWeightData utcGetDate utcSetDate utcIsoDate utcDayMonth profile75 noon17 (noon17 + 1)
           logToday80 state14) = Some 14"
proof (intro conjI)
  show "utcIsoDate (utcSetDate (noon17 + 1) (utcGetDate noon17 - timeRange state14)) = ''2024-03-03''"
    by (simp add: state14_def skew_start) (simp add: utcIsoDate_def utcGetDate_def twoDigits_def)
  show "utcIsoDate noon17 = ''2024-03-17''"
    by (simp add: noon17_def utcIsoDate_def utcGetDate_def twoDigits_def)
  show "defaultWeight state14 = Some 75"
    by (simp add: state14_def)
  show "map_option (\<lambda>st. map date (weightData st))
        (loadWeightData utcGetDate utcSetDate utcIsoDate utcDayMonth profile75 noon17 (noon17 + 1)
           logToday80 state14) =
       Some [''2024-03-03'', ''2024-03-04'', ''2024-03-05'', ''2024-03-06'', ''2024-03-07'',
             ''2024-03-08'', ''2024-03-09'', ''2024-03-10'', ''2024-03-11'', ''2024-03-12'',
             ''2024-03-13'', ''2024-03-14'', ''2024-03-15'', ''2024-03-16'']"
    by (simp only: skew_load) (simp add: comp_def utcIsoDate_def utcGetDate_def twoDigits_def)
  show "map_option (\<lambda>st. length (weightData st))
        (loadWeightData utcGetDate utcSetDate utcIsoDate utcDayMonth profile75 noon17 (noon17 + 1)
           logToday80 state14) = Some 14"
    by (simp only: skew_load) simp
qed

text \<open>
  C5, as the code has it. A log without a weight that is the entry the map holds for a
  day leaves that day without a logged weight (the weight is null, not 0). Removing a log
  without a weight leaves the series unchanged, unless that log is the one the map holds
  for a day of the array (it has a date, the date is that of a day of the array, and no
  later log has the same date) while the log delivered last before it with the same date
  carries a weight; in that one case the removal turns a day without a logged weight into
  a day with one.
\<close>

theorem null_weight_no_anchor:
  fixes isoDate dayMonth :: "int \<Rightarrow> string"
  assumes "daily_log.weight l = None"
  shows
    "(logsByDate (xs @ l # ys) (isoDate d) = Some l \<longrightarrow>
         \<not> hasActualWeight (initialPoint isoDate dayMonth (logsByDate (xs @ l # ys)) d)
       \<and> weight (initialPoint isoDate dayMonth (logsByDate (xs @ l # ys)) d) = None)
   \<and> (\<not> (hasDate l
          \<and> (\<exists>d \<in> set allDays. daily_log.date l = Some (isoDate d))
          \<and> (\<forall>y \<in> set ys. daily_log.date y \<noteq> daily_log.date l)
          \<and> logWeight (find (\<lambda>x. daily_log.date x = daily_log.date l) (rev xs)) \<noteq> None) \<longrightarrow>
        weightPoints isoDate dayMonth dflt allDays (xs @ l # ys) =
          weightPoints isoDate dayMonth dflt allDays (xs @ ys))
   \<and> (hasDate l
        \<and> (\<exists>d \<in> set allDays. daily_log.date l = Some (isoDate d))
        \<and> (\<forall>y \<in> set ys. daily_log.date y \<noteq> daily_log.date l)
        \<and> logWeight (find (\<lambda>x. daily_log.date x = daily_log.date l) (rev xs)) \<noteq> None \<longrightarrow>
        (\<exists>d \<in> set allDays.
           \<not> hasActualWeight (initialPoint isoDate dayMonth (logsByDate (xs @ l # ys)) d)
         \<and> hasActualWeight (initialPoint isoDate dayMonth (logsByDate (xs @ ys)) d)))"
proof (intro conjI impI)
  let ?P = "\<lambda>k x. hasDate x \<and> daily_log.date x = Some k"
  let ?same = "\<lambda>x. daily_log.date x = daily_log.date l"
  have same: "find (?P k) (rev xs) = find ?same (rev xs)"
    if "hasDate l" "daily_log.date l = Some k" for k
  proof (rule find_cong_set)
    fix x
    from that show "?P k x = ?same x"
      by (auto simp: hasDate_def)
  qed
  {
    assume "logsByDate (xs @ l # ys) (isoDate d) = Some l"
    then show "\<not> hasActualWeight (initialPoint isoDate dayMonth (logsByDate (xs @ l # ys)) d)"
      and "weight (initialPoint isoDate dayMonth (logsByDate (xs @ l # ys)) d) = None"
      using assms by (simp_all add: initialPoint_def Let_def logWeight_def)
  }
  {
    assume ok: "\<not> (hasDate l
          \<and> (\<exists>d \<in> set allDays. daily_log.date l = Some (isoDate d))
          \<and> (\<forall>y \<in> set ys. daily_log.date y \<noteq> daily_log.date l)
          \<and> logWeight (find ?same (rev xs)) \<noteq> None)"
    show "weightPoints isoDate dayMonth dflt allDays (xs @ l # ys) =
          weightPoints isoDate dayMonth dflt allDays (xs @ ys)"
    proof (rule weightPoints_cong)
      fix d assume d: "d \<in> set allDays"
      let ?k = "isoDate d"
      show "logWeight (logsByDate (xs @ l # ys) ?k) = logWeight (logsByDate (xs @ ys) ?k)"
      proof (cases "find (?P ?k) (rev ys)")
        case (Some y)
        then show ?thesis by (simp add: logsByDate_find find_append)
      next
        case None
        show ?thesis
        proof (cases "?P ?k l")
          case False
          with None show ?thesis by (auto simp add: logsByDate_find find_append)
        next
          case True
          with None have lhs: "logWeight (logsByDate (xs @ l # ys) ?k) = None"
            using assms by (simp add: logsByDate_find find_append logWeight_def)
          from None have "\<forall>y \<in> set ys. \<not> ?P ?k y"
            by (simp add: find_None_iff)
          with True have "\<forall>y \<in> set ys. daily_log.date y \<noteq> daily_log.date l"
            by (auto simp: hasDate_def)
          with ok True d have "logWeight (find ?same (rev xs)) = None"
            by blast
          with True have "logWeight (find (?P ?k) (rev xs)) = None"
            by (simp add: same)
          with None lhs show ?thesis by (simp add: logsByDate_find find_append)
        qed
      qed
    qed
  }
  {
    assume bad: "hasDate l
        \<and> (\<exists>d \<in> set allDays. daily_log.date l = Some (isoDate d))
        \<and> (\<forall>y \<in> set ys. daily_log.date y \<noteq> daily_log.date l)
        \<and> logWeight (find ?same (rev xs)) \<noteq> None"
    then obtain d where d: "d \<in> set allDays" "daily_log.date l = Some (isoDate d)"
      by blast
    let ?k = "isoDate d"
    from bad d have none: "find (?P ?k) (rev ys) = None"
      by (auto simp: find_None_iff)
    from bad d have Pl: "?P ?k l" by simp
    from none Pl have "logsByDate (xs @ l # ys) ?k = Some l"
      by (simp add: logsByDate_find find_append)
    with assms have before: "\<not> hasActualWeight (initialPoint isoDate dayMonth (logsByDate (xs @ l # ys)) d)"
      by (simp add: initialPoint_def Let_def logWeight_def)
    from none have "logsByDate (xs @ ys) ?k = find (?P ?k) (rev xs)"
      by (simp add: logsByDate_find find_append)
    also from bad d have "\<dots> = find ?same (rev xs)"
      by (intro same) simp_all
    finally have "logWeight (logsByDate (xs @ ys) ?k) \<noteq> None"
      using bad by simp
    then have "hasActualWeight (initialPoint isoDate dayMonth (logsByDate (xs @ ys)) d)"
      by (simp add: initialPoint_def Let_def)
    with before d(1) show "\<exists>d \<in> set allDays.
           \<not> hasActualWeight (initialPoint isoDate dayMonth (logsByDate (xs @ l # ys)) d)
         \<and> hasActualWeight (initialPoint isoDate dayMonth (logsByDate (xs @ ys)) d)"
      by blast
  }
qed

theorem null_weight_no_anchor_witness:
  "daily_log.weight nullEntryDay2 = None
   \<and> logsByDate ([februaryEntry] @ nullEntryDay2 # []) (utcIsoDate 1709380800000) = Some nullEntryDay2
   \<and> weight (initialPoint utcIsoDate utcDayMonth
        (logsByDate ([februaryEntry] @ nullEntryDay2 # [])) 1709380800000) = None
   \<and> secondEntryDay2 \<in> set [secondEntryDay2]
   \<and> daily_log.date secondEntryDay2 = daily_log.date nullEntryDay2
   \<and> weightPoints utcIsoDate utcDayMonth (Some 75) threeDays (logsDay2 @ nullEntryDay2 # [secondEntryDay2]) =
       weightPoints utcIsoDate utcDayMonth (Some 75) threeDays (logsDay2 @ [secondEntryDay2])
   \<and> hasDate nullEntryDay2
   \<and> daily_log.date nullEntryDay2 = Some (utcIsoDate (threeDays ! 1))
   \<and> logWeight (find (\<lambda>x. daily_log.date x = daily_log.date nullEntryDay2) (rev logsDay2)) = Some 80
   \<and> (\<exists>d \<in> set threeDays.
         \<not> hasActualWeight (initialPoint utcIsoDate utcDayMonth (logsByDate (logsDay2 @ nullEntryDay2 # [])) d)
       \<and> hasActualWeight (initialPoint utcIsoDate utcDayMonth (logsByDate (logsDay2 @ [])) d))"
proof -
  have h: "daily_log.weight nullEntryDay2 = None"
    by (simp add: nullEntryDay2_def)
  note t = null_weight_no_anchor [OF h, of _ _ utcIsoDate _ utcDayMonth threeDays]
  have l: "logsByDate ([februaryEntry] @ nullEntryDay2 # []) (utcIsoDate 1709380800000) = Some nullEntryDay2"
    by (simp add: nullEntryDay2_def februaryEntry_def example_defs)
  from t [of "[februaryEntry]" "[]" 1709380800000] l
  have c1: "weight (initialPoint utcIsoDate utcDayMonth
        (logsByDate ([februaryEntry] @ nullEntryDay2 # [])) 1709380800000) = None"
    by blast
  have later: "secondEntryDay2 \<in> set [secondEntryDay2]"
    "daily_log.date secondEntryDay2 = daily_log.date nullEntryDay2"
    by (simp_all add: secondEntryDay2_def nullEntryDay2_def)
  then have "\<not> (\<forall>y \<in> set [secondEntryDay2]. daily_log.date y \<noteq> daily_log.date nullEntryDay2)"
    by blast
  with t [of logsDay2 "[secondEntryDay2]" _ "Some 75"]
  have c2: "weightPoints utcIsoDate utcDayMonth (Some 75) threeDays (logsDay2 @ nullEntryDay2 # [secondEntryDay2]) =
       weightPoints utcIsoDate utcDayMonth (Some 75) threeDays (logsDay2 @ [secondEntryDay2])"
    by blast
  have b: "hasDate nullEntryDay2"
    "daily_log.date nullEntryDay2 = Some (utcIsoDate (threeDays ! 1))"
    "logWeight (find (\<lambda>x. daily_log.date x = daily_log.date nullEntryDay2) (rev logsDay2)) = Some 80"
    by (simp_all add: nullEntryDay2_def logsDay2_def example_defs)
  from b(2) have "\<exists>d \<in> set threeDays. daily_log.date nullEntryDay2 = Some (utcIsoDate d)"
    by (intro bexI [of _ "threeDays ! 1"]) (simp_all add: threeDays_def)
  with t [of logsDay2 "[]"] b(1,3)
  have c3: "\<exists>d \<in> set threeDays.
         \<not> hasActualWeight (initialPoint utcIsoDate utcDayMonth (logsByDate (logsDay2 @ nullEntryDay2 # [])) d)
       \<and> hasActualWeight (initialPoint utcIsoDate utcDayMonth (logsByDate (logsDay2 @ [])) d)"
    by simp
  from h l c1 later c2 b c3 show ?thesis by blast
qed

text \<open>
  C5 as it is stated fails on logs with a repeated date: the log without a weight,
  delivered last, overwrites the earlier log of the same day in the map, so the day has
  no weight; with that log removed the day has the weight 80.
\<close>

theorem null_entry_removed_counterexample:
  "daily_log.weight nullEntryDay2 = None
   \<and> weightPoints utcIsoDate utcDayMonth None threeDays (logsDay2 @ [nullEntryDay2])
       \<noteq> weightPoints utcIsoDate utcDayMonth None threeDays logsDay2"
proof
  show "daily_log.weight nullEntryDay2 = None"
    by (simp add: nullEntryDay2_def)
  show "weightPoints utcIsoDate utcDayMonth None threeDays (logsDay2 @ [nullEntryDay2])
       \<noteq> weightPoints utcIsoDate utcDayMonth None threeDays logsDay2"
    by (simp add: ex_weightPoints_nullEntry ex_weightPoints_None)
qed

text \<open>
  C6. Last seen wins: when several logs carry the same (non-empty) date, the map holds
  the one delivered last, the point of a day with that date takes its weight from that log,
  and the logs delivered earlier with that date have no effect on the series. The
  functions are total, so no list of logs makes the computation fail.
\<close>

theorem last_seen_wins:
  fixes isoDate dayMonth :: "int \<Rightarrow> string"
  assumes "daily_log.date l = Some k" and "k \<noteq> []"
    and "\<forall>x \<in> set ys. daily_log.date x \<noteq> Some k"
  shows "logsByDate (xs @ l # ys) k = Some l
    \<and> (isoDate d = k \<longrightarrow>
         weight (initialPoint isoDate dayMonth (logsByDate (xs @ l # ys)) d) = daily_log.weight l
       \<and> hasActualWeight (initialPoint isoDate dayMonth (logsByDate (xs @ l # ys)) d)
           = (daily_log.weight l \<noteq> None))
    \<and> weightPoints isoDate dayMonth dflt allDays (xs @ l # ys) =
        weightPoints isoDate dayMonth dflt allDays
          (filter (\<lambda>x. daily_log.date x \<noteq> Some k) xs @ l # ys)"
proof -
  let ?P = "\<lambda>k' x. hasDate x \<and> daily_log.date x = Some k'"
  have Pl: "?P k l"
    using assms(1,2) by (simp add: hasDate_def)
  have none: "find (?P k) (rev ys) = None"
    using assms(3) by (simp add: find_None_iff)
  have look: "logsByDate (zs @ l # ys) k = Some l" for zs
    using Pl none by (simp add: logsByDate_find find_append)
  have pt: "weight (initialPoint isoDate dayMonth (logsByDate (xs @ l # ys)) d) = daily_log.weight l
       \<and> hasActualWeight (initialPoint isoDate dayMonth (logsByDate (xs @ l # ys)) d)
           = (daily_log.weight l \<noteq> None)"
    if "isoDate d = k"
    using that look [of xs] by (simp add: initialPoint_def Let_def logWeight_def)
  have "logsByDate (xs @ l # ys) k' =
      logsByDate (filter (\<lambda>x. daily_log.date x \<noteq> Some k) xs @ l # ys) k'" for k'
  proof (cases "k' = k")
    case True
    then show ?thesis by (simp only: look)
  next
    case False
    then have "find (?P k') (filter (\<lambda>x. daily_log.date x \<noteq> Some k) (rev xs)) = find (?P k') (rev xs)"
      by (intro find_filter_imp) simp
    then show ?thesis
      by (simp add: logsByDate_find find_append rev_filter split: option.splits)
  qed
  then have "weightPoints isoDate dayMonth dflt allDays (xs @ l # ys) =
        weightPoints isoDate dayMonth dflt allDays
          (filter (\<lambda>x. daily_log.date x \<noteq> Some k) xs @ l # ys)"
    by (intro weightPoints_cong) simp
  with look [of xs] pt show ?thesis by blast
qed

theorem last_seen_wins_witness:
  "daily_log.date secondEntryDay2 = Some ''2024-03-02''
   \<and> logsByDate (logsDay2 @ secondEntryDay2 # [februaryEntry]) ''2024-03-02'' = Some secondEntryDay2
   \<and> weight (initialPoint utcIsoDate utcDayMonth
        (logsByDate (logsDay2 @ secondEntryDay2 # [februaryEntry])) 1709380800000) = Some 81"
proof -
  have h: "daily_log.date secondEntryDay2 = Some ''2024-03-02''" "''2024-03-02'' \<noteq> []"
    "\<forall>x \<in> set [februaryEntry]. daily_log.date x \<noteq> Some ''2024-03-02''"
    by (simp_all add: secondEntryDay2_def februaryEntry_def)
  have i: "utcIsoDate 1709380800000 = ''2024-03-02''"
    by (simp add: utcIsoDate_def utcGetDate_def twoDigits_def)
  from last_seen_wins [OF h, of logsDay2 utcIsoDate 1709380800000 utcDayMonth] i h(1)
  show ?thesis by (simp add: secondEntryDay2_def)
qed

text \<open>
  C7. Logs dated outside the range have no influence: the series is the series of the
  logs whose date is the date of a day of the array, and inserting or removing logs with
  other dates leaves it unchanged. For the whole computation from a start date and
  \<^verbatim>\<open>now\<close>, with a runtime whose \<^verbatim>\<open>setDate(getDate() + 1)\<close> moves forward: the series
  is the series of the logs whose date is the date of an instant between the start date
  and \<^verbatim>\<open>now\<close>.
\<close>

theorem out_of_range_ignored:
  fixes isoDate dayMonth :: "int \<Rightarrow> string"
  shows
  "weightPoints isoDate dayMonth dflt allDays logs =
     weightPoints isoDate dayMonth dflt allDays
       (filter (\<lambda>l. \<exists>d \<in> set allDays. daily_log.date l = Some (isoDate d)) logs)
   \<and> ((\<forall>l \<in> set extra. \<not> (\<exists>d \<in> set allDays. daily_log.date l = Some (isoDate d))) \<longrightarrow>
        weightPoints isoDate dayMonth dflt allDays (xs @ extra @ ys) =
          weightPoints isoDate dayMonth dflt allDays (xs @ ys))
   \<and> ((\<forall>t. t < setDate t (getDate t + 1)) \<longrightarrow>
        weightSeries getDate setDate isoDate dayMonth dflt startDate now logs =
          weightSeries getDate setDate isoDate dayMonth dflt startDate now
            (filter (\<lambda>l. \<exists>t. startDate \<le> t \<and> t \<le> now \<and> daily_log.date l = Some (isoDate t)) logs))"
proof (intro conjI impI)
  let ?Q = "\<lambda>l. \<exists>d \<in> set allDays. daily_log.date l = Some (isoDate d)"
  have main: "weightPoints isoDate dayMonth dflt allDays A =
     weightPoints isoDate dayMonth dflt allDays (filter ?Q A)" for A
    by (rule weightPoints_filter) blast
  show "weightPoints isoDate dayMonth dflt allDays logs =
     weightPoints isoDate dayMonth dflt allDays (filter ?Q logs)"
    by (rule main)
  {
    assume "\<forall>l \<in> set extra. \<not> ?Q l"
    then have "filter ?Q extra = []"
      by (simp only: filter_empty_conv)
    then have "filter ?Q (xs @ extra @ ys) = filter ?Q (xs @ ys)"
      by (simp only: filter_append append_Nil)
    then show "weightPoints isoDate dayMonth dflt allDays (xs @ extra @ ys) =
          weightPoints isoDate dayMonth dflt allDays (xs @ ys)"
      using main [of "xs @ extra @ ys"] main [of "xs @ ys"] by (simp only:)
  }
  {
    assume adv: "\<forall>t. t < setDate t (getDate t + 1)"
    then obtain ds where ds: "allDaysInRange getDate setDate startDate now = Some ds"
      "\<forall>d \<in> set ds. startDate \<le> d \<and> d \<le> now"
      using allDaysInRange_returns [of setDate getDate startDate now] by blast
    have "weightPoints isoDate dayMonth dflt ds logs =
        weightPoints isoDate dayMonth dflt ds
          (filter (\<lambda>l. \<exists>t. startDate \<le> t \<and> t \<le> now \<and> daily_log.date l = Some (isoDate t)) logs)"
      using ds(2) by (intro weightPoints_filter) blast
    with ds(1) show "weightSeries getDate setDate isoDate dayMonth dflt startDate now logs =
          weightSeries getDate setDate isoDate dayMonth dflt startDate now
            (filter (\<lambda>l. \<exists>t. startDate \<le> t \<and> t \<le> now \<and> daily_log.date l = Some (isoDate t)) logs)"
      by (simp add: weightSeries_def)
  }
qed

theorem out_of_range_ignored_witness:
  "februaryEntry \<in> set [februaryEntry]
   \<and> daily_log.date februaryEntry \<notin> set (map (\<lambda>d. Some (utcIsoDate d)) threeDays)
   \<and> weightPoints utcIsoDate utcDayMonth (Some 75) threeDays (logsDay2 @ [februaryEntry] @ []) =
       [\<lparr> date = ''2024-03-01'', formattedDate = ''01.03.'', weight = Some 80 \<rparr>,
        \<lparr> date = ''2024-03-02'', formattedDate = ''02.03.'', weight = Some 80 \<rparr>,
        \<lparr> date = ''2024-03-03'', formattedDate = ''03.03.'', weight = Some 75 \<rparr>]
   \<and> (1709294400000::int) < utcSetDate 1709294400000 (utcGetDate 1709294400000 + 1)
   \<and> weightSeries utcGetDate utcSetDate utcIsoDate utcDayMonth (Some 75) 1709467200001 noon17
         [februaryEntry] =
       weightSeries utcGetDate utcSetDate utcIsoDate utcDayMonth (Some 75) 1709467200001 noon17
         (filter (\<lambda>l. \<exists>t. 1709467200001 \<le> t \<and> t \<le> noon17 \<and> daily_log.date l = Some (utcIsoDate t))
            [februaryEntry])"
proof -
  have h: "\<forall>l \<in> set [februaryEntry].
      \<not> (\<exists>d \<in> set threeDays. daily_log.date l = Some (utcIsoDate d))"
    using februaryEntry_not_enumerated by simp
  note t = out_of_range_ignored [of utcIsoDate utcDayMonth "Some 75" threeDays _ "[februaryEntry]"
      logsDay2 "[]" utcSetDate utcGetDate 1709467200001 noon17]
  from t h
  have "weightPoints utcIsoDate utcDayMonth (Some 75) threeDays (logsDay2 @ [februaryEntry] @ []) =
      weightPoints utcIsoDate utcDayMonth (Some 75) threeDays (logsDay2 @ [])"
    by blast
  then have c2: "weightPoints utcIsoDate utcDayMonth (Some 75) threeDays (logsDay2 @ [februaryEntry] @ []) =
       [\<lparr> date = ''2024-03-01'', formattedDate = ''01.03.'', weight = Some 80 \<rparr>,
        \<lparr> date = ''2024-03-02'', formattedDate = ''02.03.'', weight = Some 80 \<rparr>,
        \<lparr> date = ''2024-03-03'', formattedDate = ''03.03.'', weight = Some 75 \<rparr>]"
    by (simp add: ex_weightPoints_75)
  have adv: "\<forall>t. t < utcSetDate t (utcGetDate t + 1)"
    using utc_advances by blast
  from t [of "[februaryEntry]"] adv
  have c3: "weightSeries utcGetDate utcSetDate utcIsoDate utcDayMonth (Some 75) 1709467200001 noon17
         [februaryEntry] =
       weightSeries utcGetDate utcSetDate utcIsoDate utcDayMonth (Some 75) 1709467200001 noon17
         (filter (\<lambda>l. \<exists>t. 1709467200001 \<le> t \<and> t \<le> noon17 \<and> daily_log.date l = Some (utcIsoDate t))
            [februaryEntry])"
    by blast
  from c2 c3 februaryEntry_not_enumerated utc_advances [of 1709294400000]
  show ?thesis by auto
qed

text \<open>
  C8. Inverted range: when the start date lies after \<^verbatim>\<open>now\<close>, the loop builds no day
  and the series is empty, whatever the logs and the default weight are.
\<close>

theorem inverted_range_empty:
  "now < startDate \<Longrightarrow>
   weightSeries getDate setDate isoDate dayMonth dflt startDate now logs = Some []"
  by (simp add: weightSeries_def allDaysInRange_stop weightPoints_def reversedPoints_def
      initialPoints_def)

theorem inverted_range_empty_witness:
  "(1709294400000::int) < 1709467200000
   \<and> weightSeries utcGetDate utcSetDate utcIsoDate utcDayMonth (Some 75)
        1709467200000 1709294400000 logsDay2 = Some []"
proof -
  have h: "(1709294400000::int) < 1709467200000" by simp
  from inverted_range_empty [OF h] h show ?thesis by blast
qed

text \<open>
  C9. The series with no profile weight. For the days the loop builds the series is the
  run of days up to the last anchored one (\<open>series_is_prefix_to_last_anchor\<close> above). In
  the load of 17 March 2024 with the second clock read one millisecond after the first, no
  default weight and no profile, the range runs from 3 March to 17 March and today's
  log has the weight 80, so the claim gives the run of the 15 days from 3 March to today;
  the loop does not build today, no built day is anchored, and the series is empty.
\<close>

theorem no_fallback_series_empty_despite_log_of_today:
  "logsByDate logToday80 (utcIsoDate noon17)
       = Some \<lparr> daily_log.date = Some ''2024-03-17'', weight = Some 80 \<rparr>
   \<and> utcIsoDate (utcSetDate (noon17 + 1) (utcGetDate noon17 - timeRange state14)) = ''2024-03-03''
   \<and> loadWeightData utcGetDate utcSetDate utcIsoDate utcDayMonth None noon17 (noon17 + 1)
        logToday80 (state14 \<lparr> defaultWeight := None \<rparr>)
       = Some \<lparr> weightData = [], defaultWeight = None, timeRange = 14 \<rparr>"
proof (intro conjI)
  have i: "utcIsoDate noon17 = ''2024-03-17''"
    by (simp add: noon17_def utcIsoDate_def utcGetDate_def twoDigits_def)
  show "logsByDate logToday80 (utcIsoDate noon17)
       = Some \<lparr> daily_log.date = Some ''2024-03-17'', weight = Some 80 \<rparr>"
    by (simp only: i) (simp add: logToday80_def logsByDate_def hasDate_def setLog_def)
  show "utcIsoDate (utcSetDate (noon17 + 1) (utcGetDate noon17 - timeRange state14)) = ''2024-03-03''"
    by (simp add: state14_def skew_start) (simp add: utcIsoDate_def utcGetDate_def twoDigits_def)
  have l: "allDaysInRange utcGetDate utcSetDate
      (utcSetDate (noon17 + 1) (utcGetDate noon17 - timeRange (state14 \<lparr> defaultWeight := None \<rparr>))) noon17
      = Some skewDays"
    using skew_loop by simp
  have "weightPoints utcIsoDate utcDayMonth None skewDays logToday80 = []"
    by (simp add: skew_eval logToday80_def)
  with l show "loadWeightData utcGetDate utcSetDate utcIsoDate utcDayMonth None noon17 (noon17 + 1)
        logToday80 (state14 \<lparr> defaultWeight := None \<rparr>)
       = Some \<lparr> weightData = [], defaultWeight = None, timeRange = 14 \<rparr>"
    by (simp add: loadWeightData_def weightSeries_def Let_def profileWeightOrNull_def state14_def)
qed



end
